theory Spec2Isabelle
  imports Main "HOL-Library.Sublist" "HOL-Library.AList" "HOL-Library.Char_ord"
begin

section \<open>Text\<close>

text \<open>
  A Python \<open>str\<close> is modelled as a \<^typ>\<open>string\<close> holding its UTF-8 encoding. Every
  character the program inspects (braces, the double quote, the backslash, JSON
  punctuation, digits) is ASCII, and an ASCII byte never occurs inside the encoding of
  another code point, so searching, slicing at the positions found and concatenating
  agree with the same operations on code points.
\<close>

definition dquote :: char where
  "dquote = CHR 0x22"

definition backslash :: char where
  "backslash = CHR 0x5C"

definition newline :: char where
  "newline = CHR 0x0A"

text \<open>\<open>text.find(c)\<close> for a one-character needle: the first index, or \<open>-1\<close>.\<close>

fun py_find :: "char \<Rightarrow> string \<Rightarrow> int" where
  "py_find c [] = - 1"
| "py_find c (x # xs) =
     (if x = c then 0 else (let r = py_find c xs in if r = - 1 then - 1 else r + 1))"

text \<open>\<open>text[a:b]\<close> for \<open>0 \<le> a\<close> and \<open>0 \<le> b\<close>.\<close>

definition slice :: "string \<Rightarrow> nat \<Rightarrow> nat \<Rightarrow> string" where
  "slice text a b = take (b - a) (drop a text)"

section \<open>The JSON extractor\<close>

text \<open>
  The loop of \<open>_extract_first_json_object\<close>: \<open>for i in range(start, len(text))\<close> with
  the three loop variables \<open>depth\<close>, \<open>in_str\<close> and \<open>escape\<close>. Falling out of the loop
  is \<open>return None\<close>.
\<close>

function scan_from :: "string \<Rightarrow> nat \<Rightarrow> nat \<Rightarrow> int \<Rightarrow> bool \<Rightarrow> bool \<Rightarrow> string option" where
  "scan_from text start i depth in_str escape =
     (if i < length text then
        (if in_str then
           (if escape then scan_from text start (i + 1) depth in_str False
            else if text ! i = backslash then scan_from text start (i + 1) depth in_str True
            else if text ! i = dquote then scan_from text start (i + 1) depth False escape
            else scan_from text start (i + 1) depth in_str escape)
         else
           (if text ! i = dquote then scan_from text start (i + 1) depth True escape
            else if text ! i = CHR ''{'' then scan_from text start (i + 1) (depth + 1) in_str escape
            else if text ! i = CHR ''}'' then
              (if depth - 1 = 0 then Some (slice text start (i + 1))
               else scan_from text start (i + 1) (depth - 1) in_str escape)
            else scan_from text start (i + 1) depth in_str escape))
      else None)"
  by pat_completeness auto
termination
  by (relation "measure (\<lambda>(text, start, i, depth, in_str, escape). length text - i)") auto

declare scan_from.simps [simp del]

definition extract_first_json_object :: "string \<Rightarrow> string option" where
  "extract_first_json_object text =
     (let start = py_find (CHR ''{'') text in
      if start = - 1 then None
      else scan_from text (nat start) (nat start) 0 False False)"

subsection \<open>The matcher as the specification words it\<close>

text \<open>
  The specification describes a scanner with a brace-depth counter, a string-literal
  flag and an escape flag, run from the first \<open>{\<close>; the object ends at the character
  on which the depth counter returns to zero.
\<close>

record scanner =
  depth :: int
  in_string :: bool
  escaped :: bool

definition scanner_start :: scanner where
  "scanner_start = \<lparr>depth = 0, in_string = False, escaped = False\<rparr>"

definition advance :: "scanner \<Rightarrow> char \<Rightarrow> scanner" where
  "advance s ch =
     (if in_string s then
        (if escaped s then s\<lparr>escaped := False\<rparr>
         else if ch = backslash then s\<lparr>escaped := True\<rparr>
         else if ch = dquote then s\<lparr>in_string := False\<rparr>
         else s)
      else
        (if ch = dquote then s\<lparr>in_string := True\<rparr>
         else if ch = CHR ''{'' then s\<lparr>depth := depth s + 1\<rparr>
         else if ch = CHR ''}'' then s\<lparr>depth := depth s - 1\<rparr>
         else s))"

text \<open>The shortest prefix on whose last character the depth returns to zero.\<close>

fun balanced_prefix :: "scanner \<Rightarrow> string \<Rightarrow> string option" where
  "balanced_prefix s [] = None"
| "balanced_prefix s (ch # rest) =
     (if depth s \<noteq> 0 \<and> depth (advance s ch) = 0 then Some [ch]
      else map_option ((#) ch) (balanced_prefix (advance s ch) rest))"

definition brace_matcher :: "string \<Rightarrow> string option" where
  "brace_matcher text =
     (case dropWhile (\<lambda>c. c \<noteq> CHR ''{'') text of
        [] \<Rightarrow> None
      | c # cs \<Rightarrow> balanced_prefix scanner_start (c # cs))"

section \<open>The prompt builder\<close>

definition build_system_context :: "string \<Rightarrow> string \<Rightarrow> string \<Rightarrow> string \<Rightarrow> string" where
  "build_system_context subject topic language level =
     ''Subject: '' @ subject @ [newline] @
     ''Topic: '' @ topic @ [newline] @
     ''Language: '' @ language @ [newline] @
     ''Student Level: '' @ level @ [newline]"

definition prompt_explanation :: "string \<Rightarrow> string \<Rightarrow> string \<Rightarrow> string \<Rightarrow> string" where
  "prompt_explanation subject topic language level =
     (let ctx = build_system_context subject topic language level in
      ctx @ [newline] @
      ''Task: Write a clear, friendly, step-by-step explanation of the topic. '' @
      ''Use short paragraphs, numbered steps where helpful, and examples. '' @
      ''Keep it concise but thorough. Reply in the specified language only.'')"

definition prompt_resources :: "string \<Rightarrow> string \<Rightarrow> string \<Rightarrow> string \<Rightarrow> string" where
  "prompt_resources subject topic language level =
     (let ctx = build_system_context subject topic language level in
      ctx @ [newline] @
      ''Task: Recommend at least 3 quality learning resources (mix of articles, videos, documentation). '' @
      ''Return as a markdown bulleted list. Each item must include a title, the type (Article/Video/Docs), '' @
      ''a one-line why it'' @ [CHR 0x27] @ ''s useful, and a URL. Reply in the specified language only.'')"

definition prompt_roadmap :: "string \<Rightarrow> string \<Rightarrow> string \<Rightarrow> string \<Rightarrow> string" where
  "prompt_roadmap subject topic language level =
     (let ctx = build_system_context subject topic language level in
      ctx @ [newline] @
      ''Task: Produce a structured learning roadmap for this topic and level. '' @
      ''Organize into stages with bullet points, estimated effort, and key outcomes. '' @
      ''Add a short list of common mistakes to avoid. Reply in the specified language only.'')"

definition prompt_quiz :: "string \<Rightarrow> string \<Rightarrow> string \<Rightarrow> string \<Rightarrow> string" where
  "prompt_quiz subject topic language level =
     (let ctx = build_system_context subject topic language level in
      ctx @ [newline] @
      ''Task: Create a short multiple-choice quiz with 3 to 5 questions. '' @
      ''Return STRICT JSON only with this schema:'' @ [newline] @
      ''{'' @ [newline] @
      ''  \"questions\": ['' @ [newline] @
      ''    {'' @ [newline] @
      ''      \"question\": \"string\",'' @ [newline] @
      ''      \"options\": [\"A\", \"B\", \"C\", \"D\"],'' @ [newline] @
      ''      \"answer_index\": 0'' @ [newline] @
      ''    }'' @ [newline] @
      ''  ]'' @ [newline] @
      ''}'' @ [newline] @
      ''Requirements:'' @ [newline] @
      ''- options length 3-5'' @ [newline] @
      ''- answer_index is an integer index into the options array'' @ [newline] @
      ''- No additional commentary or code fences'' @ [newline] @
      ''- Write the question text and options in '' @ language @ ''.'')"

text \<open>
  The four task kinds. The program has one builder per kind and picks it in the
  callback of the kind's button (\<open>on_generate_explanation\<close>, \<open>on_generate_resources\<close>,
  \<open>on_generate_roadmap\<close>, \<open>on_generate_quiz\<close>); \<open>build_prompt\<close> is that choice.
\<close>

datatype task_kind = Explanation | Resources | Roadmap | Quiz

fun build_prompt :: "task_kind \<Rightarrow> string \<Rightarrow> string \<Rightarrow> string \<Rightarrow> string \<Rightarrow> string" where
  "build_prompt Explanation = prompt_explanation"
| "build_prompt Resources = prompt_resources"
| "build_prompt Roadmap = prompt_roadmap"
| "build_prompt Quiz = prompt_quiz"

section \<open>JSON values and \<open>json.loads\<close>\<close>

text \<open>
  The values \<open>json.loads\<close> returns: \<open>None\<close>, \<open>bool\<close>, \<open>int\<close>, \<open>float\<close>, \<open>str\<close>,
  \<open>list\<close> and \<open>dict\<close> (keys are always \<open>str\<close>). A float is kept as the numeral the
  text wrote (\<open>NaN\<close>, \<open>Infinity\<close> and \<open>-Infinity\<close> included): the program never
  computes with one. A dict is the list of its items in insertion order.
\<close>

datatype json =
    JNull
  | JBool bool
  | JInt int
  | JFloat string
  | JStr string
  | JList "json list"
  | JDict "(string \<times> json) list"

text \<open>\<open>dict(pairs)\<close>: a later pair with the same key replaces the value in place.\<close>

definition dict_of_pairs :: "(string \<times> json) list \<Rightarrow> (string \<times> json) list" where
  "dict_of_pairs pairs = foldl (\<lambda>d (k, v). AList.update k v d) [] pairs"

subsection \<open>Strings\<close>

definition is_hex :: "char \<Rightarrow> bool" where
  "is_hex c = ((CHR ''0'' \<le> c \<and> c \<le> CHR ''9'') \<or> (CHR ''a'' \<le> c \<and> c \<le> CHR ''f'')
     \<or> (CHR ''A'' \<le> c \<and> c \<le> CHR ''F''))"

definition hex_value :: "char \<Rightarrow> nat" where
  "hex_value c =
     (if CHR ''0'' \<le> c \<and> c \<le> CHR ''9'' then of_char c - 48
      else if CHR ''a'' \<le> c \<and> c \<le> CHR ''f'' then of_char c - 87
      else of_char c - 55)"

text \<open>\<open>_decode_uXXXX\<close>: exactly four hexadecimal digits, or the escape is invalid.\<close>

definition hex4 :: "string \<Rightarrow> nat option" where
  "hex4 ds =
     (if length ds = 4 \<and> list_all is_hex ds
      then Some (foldl (\<lambda>n c. 16 * n + hex_value c) 0 ds)
      else None)"

text \<open>
  \<open>chr(uni)\<close> in the encoding of the model. A surrogate that the text escapes on its own
  is a code point of the Python string; it is written with the three-byte pattern.
\<close>

definition utf8 :: "nat \<Rightarrow> string" where
  "utf8 cp =
     (if cp < 0x80 then [char_of cp]
      else if cp < 0x800 then [char_of (0xC0 + cp div 64), char_of (0x80 + cp mod 64)]
      else if cp < 0x10000 then
        [char_of (0xE0 + cp div 4096), char_of (0x80 + (cp div 64) mod 64),
         char_of (0x80 + cp mod 64)]
      else
        [char_of (0xF0 + cp div 262144), char_of (0x80 + (cp div 4096) mod 64),
         char_of (0x80 + (cp div 64) mod 64), char_of (0x80 + cp mod 64)])"

text \<open>The \<open>BACKSLASH\<close> table of the decoder.\<close>

definition unescape :: "char \<Rightarrow> char option" where
  "unescape e =
     (if e = dquote then Some dquote
      else if e = backslash then Some backslash
      else if e = CHR ''/'' then Some (CHR ''/'')
      else if e = CHR ''b'' then Some (CHR 0x08)
      else if e = CHR ''f'' then Some (CHR 0x0C)
      else if e = CHR ''n'' then Some (CHR 0x0A)
      else if e = CHR ''r'' then Some (CHR 0x0D)
      else if e = CHR ''t'' then Some (CHR 0x09)
      else None)"

definition prepend :: "string \<Rightarrow> (string \<times> string) option \<Rightarrow> (string \<times> string) option" where
  "prepend cs r = map_option (\<lambda>(s, rest). (cs @ s, rest)) r"

text \<open>
  \<open>scanstring\<close> in strict mode, from the character after the opening quote: the
  decoded string and the text after the closing quote. \<open>None\<close> is \<open>JSONDecodeError\<close>
  (unterminated string, control character, invalid escape).
\<close>

function scanstring :: "string \<Rightarrow> (string \<times> string) option" where
  "scanstring [] = None"
| "scanstring (c # cs) =
     (if c = dquote then Some ([], cs)
      else if c = backslash then
        (case cs of
           [] \<Rightarrow> None
         | e # es \<Rightarrow>
             if e = CHR ''u'' then
               (case hex4 (take 4 es) of
                  None \<Rightarrow> None
                | Some uni \<Rightarrow>
                    if 0xD800 \<le> uni \<and> uni \<le> 0xDBFF \<and> take 2 (drop 4 es) = [backslash, CHR ''u''] then
                      (case hex4 (take 4 (drop 6 es)) of
                         None \<Rightarrow> None
                       | Some uni2 \<Rightarrow>
                           if 0xDC00 \<le> uni2 \<and> uni2 \<le> 0xDFFF then
                             prepend (utf8 (0x10000 + (uni - 0xD800) * 1024 + (uni2 - 0xDC00)))
                               (scanstring (drop 10 es))
                           else prepend (utf8 uni) (scanstring (drop 4 es)))
                    else prepend (utf8 uni) (scanstring (drop 4 es)))
             else
               (case unescape e of
                  None \<Rightarrow> None
                | Some ch \<Rightarrow> prepend [ch] (scanstring es)))
      else if c < CHR 0x20 then None
      else prepend [c] (scanstring cs))"
  by pat_completeness auto
termination
  by (relation "measure length") auto

subsection \<open>Numbers\<close>

definition is_digit :: "char \<Rightarrow> bool" where
  "is_digit c = (CHR ''0'' \<le> c \<and> c \<le> CHR ''9'')"

definition int_of_digits :: "string \<Rightarrow> int" where
  "int_of_digits ds = foldl (\<lambda>n c. 10 * n + (of_char c - 48)) 0 ds"

text \<open>
  \<open>NUMBER_RE\<close>, \<open>(-?(?:0|[1-9][0-9]*))(\.[0-9]+)?([eE][-+]?[0-9]+)?\<close>, matched at the head
  of the text: the integer part, the fraction, the exponent and the text that follows.
  A fraction or an exponent without a digit is not part of the match.
\<close>

definition match_integer :: "string \<Rightarrow> (string \<times> string) option" where
  "match_integer s =
     (let (sign, r) = (if take 1 s = ''-'' then (''-'', drop 1 s) else ('''', s)) in
      case r of
        [] \<Rightarrow> None
      | d # ds \<Rightarrow>
          if d = CHR ''0'' then Some (sign @ [d], ds)
          else if is_digit d then Some (sign @ d # takeWhile is_digit ds, dropWhile is_digit ds)
          else None)"

definition match_frac :: "string \<Rightarrow> string \<times> string" where
  "match_frac s =
     (case s of
        c # d # ds \<Rightarrow>
          if c = CHR ''.'' \<and> is_digit d
          then (c # d # takeWhile is_digit ds, dropWhile is_digit ds)
          else ('''', s)
      | _ \<Rightarrow> ('''', s))"

definition match_exp :: "string \<Rightarrow> string \<times> string" where
  "match_exp s =
     (case s of
        [] \<Rightarrow> ('''', s)
      | e # r \<Rightarrow>
          if e = CHR ''e'' \<or> e = CHR ''E'' then
            (let (sign, r') = (if take 1 r = ''-'' \<or> take 1 r = ''+'' then (take 1 r, drop 1 r) else ('''', r)) in
             case r' of
               [] \<Rightarrow> ('''', s)
             | d # ds \<Rightarrow>
                 if is_digit d
                 then (e # sign @ d # takeWhile is_digit ds, dropWhile is_digit ds)
                 else ('''', s))
          else ('''', s))"

text \<open>\<open>int(integer)\<close> when the match has neither fraction nor exponent, a float otherwise.\<close>

definition match_number :: "string \<Rightarrow> (json \<times> string) option" where
  "match_number s =
     (case match_integer s of
        None \<Rightarrow> None
      | Some (integer, r) \<Rightarrow>
          (let (frac, r1) = match_frac r; (ex, r2) = match_exp r1 in
           if frac \<noteq> [] \<or> ex \<noteq> [] then Some (JFloat (integer @ frac @ ex), r2)
           else Some (JInt (if take 1 integer = ''-'' then - int_of_digits (drop 1 integer)
                            else int_of_digits integer), r2)))"

subsection \<open>Values\<close>

definition is_json_space :: "char \<Rightarrow> bool" where
  "is_json_space c = (c = CHR '' '' \<or> c = CHR 0x09 \<or> c = CHR 0x0A \<or> c = CHR 0x0D)"

definition skip_ws :: "string \<Rightarrow> string" where
  "skip_ws s = dropWhile is_json_space s"

text \<open>
  The scanner and the array and object decoders. \<open>scan_once\<close> reads the value at the
  head of the text. \<open>JSONArray\<close> reads the items of an array that is not empty, from
  its first item; \<open>JSONObject\<close> reads the pairs of an object that is not empty, from
  the character after the opening quote of its first key. Each returns what it read
  and the text that follows; \<open>None\<close> is \<open>JSONDecodeError\<close>.

  The first argument is fuel: a call passes one unit less to the calls it makes, and
  fails with none left. \<open>json_loads\<close> gives twice the length of the text plus two,
  which is never used up (\<open>json_loads_fuel\<close> below), so the model decodes text of any
  nesting. Python's decoder does not: it raises \<open>RecursionError\<close> past the
  interpreter's recursion limit, and \<open>ValueError\<close> on an integer of more digits than
  the interpreter's limit for \<open>int\<close>. Neither limit is modelled.
\<close>

fun scan_once :: "nat \<Rightarrow> string \<Rightarrow> (json \<times> string) option"
  and JSONArray :: "nat \<Rightarrow> string \<Rightarrow> (json list \<times> string) option"
  and JSONObject :: "nat \<Rightarrow> string \<Rightarrow> ((string \<times> json) list \<times> string) option"
where
  "scan_once 0 s = None"
| "scan_once (Suc n) [] = None"
| "scan_once (Suc n) (c # cs) =
     (if c = dquote then map_option (\<lambda>(str, r). (JStr str, r)) (scanstring cs)
      else if c = CHR ''{'' then
        (case skip_ws cs of
           [] \<Rightarrow> None
         | d # ds \<Rightarrow>
             if d = CHR ''}'' then Some (JDict [], ds)
             else if d = dquote then
               map_option (\<lambda>(pairs, r). (JDict (dict_of_pairs pairs), r)) (JSONObject n ds)
             else None)
      else if c = CHR ''['' then
        (case skip_ws cs of
           [] \<Rightarrow> None
         | d # ds \<Rightarrow>
             if d = CHR '']'' then Some (JList [], ds)
             else map_option (\<lambda>(values, r). (JList values, r)) (JSONArray n (d # ds)))
      else if take 4 (c # cs) = ''null'' then Some (JNull, drop 4 (c # cs))
      else if take 4 (c # cs) = ''true'' then Some (JBool True, drop 4 (c # cs))
      else if take 5 (c # cs) = ''false'' then Some (JBool False, drop 5 (c # cs))
      else
        (case match_number (c # cs) of
           Some res \<Rightarrow> Some res
         | None \<Rightarrow>
             if take 3 (c # cs) = ''NaN'' then Some (JFloat ''NaN'', drop 3 (c # cs))
             else if take 8 (c # cs) = ''Infinity'' then Some (JFloat ''Infinity'', drop 8 (c # cs))
             else if take 9 (c # cs) = ''-Infinity'' then Some (JFloat ''-Infinity'', drop 9 (c # cs))
             else None))"
| "JSONArray 0 s = None"
| "JSONArray (Suc n) s =
     (case scan_once n s of
        None \<Rightarrow> None
      | Some (v, r) \<Rightarrow>
          (case skip_ws r of
             [] \<Rightarrow> None
           | d # ds \<Rightarrow>
               if d = CHR '']'' then Some ([v], ds)
               else if d = CHR '','' then
                 map_option (\<lambda>(values, r'). (v # values, r')) (JSONArray n (skip_ws ds))
               else None))"
| "JSONObject 0 s = None"
| "JSONObject (Suc n) s =
     (case scanstring s of
        None \<Rightarrow> None
      | Some (key, r) \<Rightarrow>
          (case skip_ws r of
             [] \<Rightarrow> None
           | c # cs \<Rightarrow>
               if c \<noteq> CHR '':'' then None
               else
                 (case scan_once n (skip_ws cs) of
                    None \<Rightarrow> None
                  | Some (v, r2) \<Rightarrow>
                      (case skip_ws r2 of
                         [] \<Rightarrow> None
                       | d # ds \<Rightarrow>
                           if d = CHR ''}'' then Some ([(key, v)], ds)
                           else if d = CHR '','' then
                             (case skip_ws ds of
                                [] \<Rightarrow> None
                              | q # qs \<Rightarrow>
                                  if q = dquote then
                                    map_option (\<lambda>(pairs, r'). ((key, v) # pairs, r')) (JSONObject n qs)
                                  else None)
                           else None))))"

text \<open>
  \<open>json.loads(text)\<close>: one value between optional whitespace and nothing else
  (\<open>Extra data\<close> otherwise). \<open>None\<close> is the exception \<open>json.loads\<close> raises.
\<close>

definition json_loads :: "string \<Rightarrow> json option" where
  "json_loads s =
     (case scan_once (2 * length s + 2) (skip_ws s) of
        None \<Rightarrow> None
      | Some (v, r) \<Rightarrow> if skip_ws r = [] then Some v else None)"

section \<open>Python values as text\<close>

text \<open>
  The code points \<open>str.strip()\<close> removes (\<open>str.isspace\<close>), each in its encoding:
  U+0009 to U+000D, U+001C to U+0020, U+0085, U+00A0, U+1680, U+2000 to U+200A,
  U+2028, U+2029, U+202F, U+205F and U+3000.
\<close>

definition whitespace :: "string list" where
  "whitespace =
     [[CHR 0x09], [CHR 0x0A], [CHR 0x0B], [CHR 0x0C], [CHR 0x0D],
      [CHR 0x1C], [CHR 0x1D], [CHR 0x1E], [CHR 0x1F], [CHR 0x20],
      [CHR 0xC2, CHR 0x85], [CHR 0xC2, CHR 0xA0], [CHR 0xE1, CHR 0x9A, CHR 0x80],
      [CHR 0xE2, CHR 0x80, CHR 0x80], [CHR 0xE2, CHR 0x80, CHR 0x81],
      [CHR 0xE2, CHR 0x80, CHR 0x82], [CHR 0xE2, CHR 0x80, CHR 0x83],
      [CHR 0xE2, CHR 0x80, CHR 0x84], [CHR 0xE2, CHR 0x80, CHR 0x85],
      [CHR 0xE2, CHR 0x80, CHR 0x86], [CHR 0xE2, CHR 0x80, CHR 0x87],
      [CHR 0xE2, CHR 0x80, CHR 0x88], [CHR 0xE2, CHR 0x80, CHR 0x89],
      [CHR 0xE2, CHR 0x80, CHR 0x8A], [CHR 0xE2, CHR 0x80, CHR 0xA8],
      [CHR 0xE2, CHR 0x80, CHR 0xA9], [CHR 0xE2, CHR 0x80, CHR 0xAF],
      [CHR 0xE2, CHR 0x81, CHR 0x9F], [CHR 0xE3, CHR 0x80, CHR 0x80]]"

text \<open>The length of the code at the head of the text, \<open>0\<close> when none of the codes is.\<close>

definition code_at_head :: "string list \<Rightarrow> string \<Rightarrow> nat" where
  "code_at_head codes s =
     (case List.find (\<lambda>w. prefix w s) codes of None \<Rightarrow> 0 | Some w \<Rightarrow> length w)"

function strip_head :: "string list \<Rightarrow> string \<Rightarrow> string" where
  "strip_head codes s =
     (if s \<noteq> [] \<and> 0 < code_at_head codes s
      then strip_head codes (drop (code_at_head codes s) s)
      else s)"
  by pat_completeness auto
termination
  by (relation "measure (\<lambda>(codes, s). length s)") auto

declare strip_head.simps [simp del]

definition lstrip :: "string \<Rightarrow> string" where
  "lstrip s = strip_head whitespace s"

definition rstrip :: "string \<Rightarrow> string" where
  "rstrip s = rev (strip_head (map rev whitespace) (rev s))"

definition strip :: "string \<Rightarrow> string" where
  "strip s = rstrip (lstrip s)"

text \<open>\<open>str(n)\<close> for an \<open>int\<close>.\<close>

fun digits :: "nat \<Rightarrow> string" where
  "digits n =
     (if n < 10 then [''0123456789'' ! n]
      else digits (n div 10) @ [''0123456789'' ! (n mod 10)])"

declare digits.simps [simp del]

definition str_int :: "int \<Rightarrow> string" where
  "str_int i = (if i < 0 then CHR ''-'' # digits (nat (- i)) else digits (nat i))"

text \<open>
  \<open>str(o)\<close> for a value of \<open>json.loads\<close>. The text Python prints for a float, a list
  or a dict is not modelled: \<open>repr\<close> stands for it, and every statement below holds
  whatever it is.
\<close>

fun py_str :: "(json \<Rightarrow> string) \<Rightarrow> json \<Rightarrow> string" where
  "py_str repr (JStr s) = s"
| "py_str repr JNull = ''None''"
| "py_str repr (JBool b) = (if b then ''True'' else ''False'')"
| "py_str repr (JInt i) = str_int i"
| "py_str repr v = repr v"

section \<open>Reading the quiz\<close>

datatype py_error = AttributeError | TypeError | IndexError

text \<open>
  \<open>"questions" in parsed\<close>: a key of a dict, an item of a list, a substring of a
  string; any other value is not a container and the test raises \<open>TypeError\<close>.
\<close>

fun contains_questions :: "json \<Rightarrow> py_error + bool" where
  "contains_questions (JDict d) = Inr (map_of d ''questions'' \<noteq> None)"
| "contains_questions (JList xs) = Inr (List.member xs (JStr ''questions''))"
| "contains_questions (JStr s) = Inr (sublist ''questions'' s)"
| "contains_questions v = Inl TypeError"

text \<open>
  One \<open>try\<close> block of \<open>parse_quiz_json\<close>: \<open>json.loads\<close>, then the membership test. The
  value is returned when the test holds; an exception of either is swallowed, and
  the function goes on as when the test fails.
\<close>

definition try_parse :: "string \<Rightarrow> json option" where
  "try_parse s =
     (case json_loads s of
        None \<Rightarrow> None
      | Some parsed \<Rightarrow>
          (case contains_questions parsed of
             Inl e \<Rightarrow> None
           | Inr found \<Rightarrow> if found then Some parsed else None))"

definition parse_quiz_json :: "string \<Rightarrow> json" where
  "parse_quiz_json raw =
     (case try_parse raw of
        Some parsed \<Rightarrow> parsed
      | None \<Rightarrow>
          (case extract_first_json_object raw of
             None \<Rightarrow> JDict [(''questions'', JList [])]
           | Some block \<Rightarrow>
               if block = [] then JDict [(''questions'', JList [])]
               else
                 (case try_parse block of
                    Some parsed \<Rightarrow> parsed
                  | None \<Rightarrow> JDict [(''questions'', JList [])])))"

section \<open>Normalizing the quiz\<close>

text \<open>
  A cleaned question. \<open>answer_index\<close> is the integer the program compares and indexes
  with; Python's \<open>True\<close> and \<open>False\<close> are the integers \<open>1\<close> and \<open>0\<close> there.
\<close>

record quiz_question =
  question :: string
  options :: "string list"
  answer_index :: int

text \<open>\<open>d.get(key, default)\<close>.\<close>

definition dict_get :: "(string \<times> json) list \<Rightarrow> string \<Rightarrow> json \<Rightarrow> json" where
  "dict_get d key dflt = (case map_of d key of None \<Rightarrow> dflt | Some v \<Rightarrow> v)"

text \<open>\<open>isinstance(v, int)\<close>: \<open>bool\<close> is a subclass of \<open>int\<close>.\<close>

definition isinstance_int :: "json \<Rightarrow> bool" where
  "isinstance_int v = (case v of JInt i \<Rightarrow> True | JBool b \<Rightarrow> True | _ \<Rightarrow> False)"

definition int_of :: "json \<Rightarrow> int" where
  "int_of v = (case v of JInt i \<Rightarrow> i | JBool b \<Rightarrow> (if b then 1 else 0) | _ \<Rightarrow> 0)"

text \<open>
  The body of the loop of \<open>normalize_quiz\<close> for one item \<open>q\<close>: \<open>q.get\<close> raises
  \<open>AttributeError\<close> when \<open>q\<close> is not a dict; otherwise the item is appended cleaned
  (\<open>Some\<close>) or skipped (\<open>None\<close>).
\<close>

definition clean :: "(json \<Rightarrow> string) \<Rightarrow> json \<Rightarrow> py_error + quiz_question option" where
  "clean repr q =
     (case q of
        JDict d \<Rightarrow>
          (let question = dict_get d ''question'' JNull;
               options = dict_get d ''options'' (JList []);
               answer_index = dict_get d ''answer_index'' JNull
           in case (question, options) of
                (JStr qtext, JList opts) \<Rightarrow>
                  if 3 \<le> length opts \<and> length opts \<le> 5 \<and> isinstance_int answer_index
                     \<and> 0 \<le> int_of answer_index \<and> int_of answer_index < int (length opts)
                  then Inr (Some \<lparr>question = strip qtext,
                                   options = map (\<lambda>opt. strip (py_str repr opt)) opts,
                                   answer_index = int_of answer_index\<rparr>)
                  else Inr None
              | _ \<Rightarrow> Inr None)
      | _ \<Rightarrow> Inl AttributeError)"

fun normalize_loop :: "(json \<Rightarrow> string) \<Rightarrow> json list \<Rightarrow> quiz_question list \<Rightarrow> py_error + quiz_question list" where
  "normalize_loop repr [] cleaned = Inr cleaned"
| "normalize_loop repr (q # qs) cleaned =
     (case clean repr q of
        Inl e \<Rightarrow> Inl e
      | Inr None \<Rightarrow> normalize_loop repr qs cleaned
      | Inr (Some c) \<Rightarrow> normalize_loop repr qs (cleaned @ [c]))"

text \<open>
  What \<open>for q in v\<close> iterates over: the items of a list, the keys of a dict, the
  characters of a string (each a string; how the bytes of the model group into
  characters makes no difference to a loop that raises on the first of them). Any
  other value is not iterable.
\<close>

fun py_iter :: "json \<Rightarrow> py_error + json list" where
  "py_iter (JList xs) = Inr xs"
| "py_iter (JDict d) = Inr (map (\<lambda>(k, v). JStr k) d)"
| "py_iter (JStr s) = Inr (map (\<lambda>c. JStr [c]) s)"
| "py_iter v = Inl TypeError"

definition normalize_quiz :: "(json \<Rightarrow> string) \<Rightarrow> json \<Rightarrow> py_error + quiz_question list" where
  "normalize_quiz repr quiz =
     (case quiz of
        JDict d \<Rightarrow>
          (case py_iter (dict_get d ''questions'' (JList [])) of
             Inl e \<Rightarrow> Inl e
           | Inr qs \<Rightarrow>
               (case normalize_loop repr qs [] of
                  Inl e \<Rightarrow> Inl e
                | Inr cleaned \<Rightarrow> Inr (take 5 cleaned)))
      | _ \<Rightarrow> Inl AttributeError)"

text \<open>
  For an item that is a dict the body of the loop cannot raise; \<open>kept\<close> is what it
  appends, if anything.
\<close>

definition is_dict :: "json \<Rightarrow> bool" where
  "is_dict v = (case v of JDict d \<Rightarrow> True | _ \<Rightarrow> False)"

definition kept :: "(json \<Rightarrow> string) \<Rightarrow> json \<Rightarrow> quiz_question option" where
  "kept repr q = (case clean repr q of Inl e \<Rightarrow> None | Inr r \<Rightarrow> r)"

subsection \<open>The quiz invariant\<close>

text \<open>
  The constraint on a question of a quiz that scoring relies on: \<open>answer_index\<close>
  indexes \<open>options\<close>.
\<close>

definition valid_index :: "quiz_question \<Rightarrow> bool" where
  "valid_index q = (0 \<le> answer_index q \<and> answer_index q < int (length (options q)))"

text \<open>
  A record as \<open>normalize_quiz\<close> leaves it: the question and every option trimmed, three to
  five options, a valid \<open>answer_index\<close>.
\<close>

definition well_formed :: "quiz_question \<Rightarrow> bool" where
  "well_formed r =
     (strip (question r) = question r \<and> list_all (\<lambda>opt. strip opt = opt) (options r)
      \<and> 3 \<le> length (options r) \<and> length (options r) \<le> 5 \<and> valid_index r)"

section \<open>Scoring\<close>

subsection \<open>The comparison with \<open>total * 0.6\<close>\<close>

text \<open>
  \<open>total * 0.6\<close> is a product of doubles. The double \<open>0.6\<close> is
  \<open>5404319552844595 / 2^53\<close>; \<open>total\<close>, a list length, converts to a double exactly
  (it is below \<open>2^53\<close>); the product is the exact product rounded to 53 significant
  bits, ties to even; and Python compares the int \<open>correct\<close> with that double exactly.
  The model computes in units of \<open>2^-53\<close>, where all three are natural numbers.
\<close>

fun bit_length :: "nat \<Rightarrow> nat" where
  "bit_length n = (if n = 0 then 0 else Suc (bit_length (n div 2)))"

declare bit_length.simps [simp del]

definition round53 :: "nat \<Rightarrow> nat" where
  "round53 a =
     (if bit_length a \<le> 53 then a
      else
        (let s = bit_length a - 53;
             q = a div 2 ^ s;
             r = a mod 2 ^ s;
             h = 2 ^ (s - 1)
         in (if h < r \<or> (r = h \<and> odd q) then q + 1 else q) * 2 ^ s))"

text \<open>\<open>correct >= (total * 0.6)\<close>.\<close>

definition at_least_06 :: "nat \<Rightarrow> nat \<Rightarrow> bool" where
  "at_least_06 correct n = (round53 (n * 5404319552844595) \<le> correct * 2 ^ 53)"

subsection \<open>\<open>evaluate_answers\<close>\<close>

text \<open>
  \<open>xs[i]\<close>: an index from \<open>0\<close> up to the length reads from the front, one from
  \<open>-1\<close> down to minus the length reads from the back, any other raises.
\<close>

definition py_getitem :: "'a list \<Rightarrow> int \<Rightarrow> py_error + 'a" where
  "py_getitem xs i =
     (if 0 \<le> i \<and> i < int (length xs) then Inr (xs ! nat i)
      else if i < 0 \<and> - int (length xs) \<le> i then Inr (xs ! nat (int (length xs) + i))
      else Inl IndexError)"

text \<open>\<open>"\n".join(details)\<close>.\<close>

fun join :: "string \<Rightarrow> string list \<Rightarrow> string" where
  "join sep [] = []"
| "join sep [x] = x"
| "join sep (x # y # ys) = x @ sep @ join sep (y # ys)"

text \<open>The marks U+2705 and U+274C, and the apostrophe U+2019 of the first message.\<close>

definition check_mark :: string where
  "check_mark = [CHR 0xE2, CHR 0x9C, CHR 0x85]"

definition cross_mark :: string where
  "cross_mark = [CHR 0xE2, CHR 0x9D, CHR 0x8C]"

definition great_job :: string where
  "great_job = ''Great job. You'' @ [CHR 0xE2, CHR 0x80, CHR 0x99] @ ''ve mastered this set.''"

definition good_work :: string where
  "good_work = ''Good work. Review the missed questions and try again.''"

definition keep_practicing :: string where
  "keep_practicing = ''Keep practicing. Revisit the explanation and roadmap.''"

text \<open>
  A selection is \<open>None\<close> or an index. The expressions of the loop body:
  \<open>user_choices[i] if i < len(user_choices) else None\<close>, \<open>user_idx == ans_idx\<close>, the
  label of the chosen option and the line appended to \<open>details\<close>.
\<close>

definition selection_at :: "int option list \<Rightarrow> nat \<Rightarrow> int option" where
  "selection_at user_choices i = (if i < length user_choices then user_choices ! i else None)"

definition is_correct :: "quiz_question \<Rightarrow> int option \<Rightarrow> bool" where
  "is_correct q user_idx = (user_idx = Some (answer_index q))"

definition chosen_label :: "quiz_question \<Rightarrow> int option \<Rightarrow> string" where
  "chosen_label q user_idx =
     (case user_idx of
        None \<Rightarrow> ''No answer''
      | Some u \<Rightarrow>
          if 0 \<le> u \<and> u < int (length (options q)) then options q ! nat u
          else ''No answer'')"

definition detail_line :: "nat \<Rightarrow> bool \<Rightarrow> string \<Rightarrow> string \<Rightarrow> string" where
  "detail_line i ok chosen correct_label =
     ''Q'' @ str_int (int i + 1) @ '': '' @
     (if ok then check_mark @ '' Correct'' else cross_mark @ '' Incorrect'') @
     '' | Your answer: '' @ chosen @ '' | Correct: '' @ correct_label"

text \<open>
  The loop \<open>for i, q in enumerate(quiz_data)\<close> with its variables \<open>correct\<close> and
  \<open>details\<close>. \<open>q['options'][ans_idx]\<close> is the one expression that can raise.
\<close>

fun score_loop ::
  "int option list \<Rightarrow> quiz_question list \<Rightarrow> nat \<Rightarrow> nat \<Rightarrow> string list \<Rightarrow> py_error + nat \<times> string list"
where
  "score_loop user_choices [] i correct details = Inr (correct, details)"
| "score_loop user_choices (q # qs) i correct details =
     (let user_idx = selection_at user_choices i;
          ok = is_correct q user_idx;
          chosen = chosen_label q user_idx
      in case py_getitem (options q) (answer_index q) of
           Inl e \<Rightarrow> Inl e
         | Inr correct_label \<Rightarrow>
             score_loop user_choices qs (i + 1) (if ok then correct + 1 else correct)
               (details @ [detail_line i ok chosen correct_label]))"

definition evaluate_answers :: "int option list \<Rightarrow> quiz_question list \<Rightarrow> py_error + string \<times> string" where
  "evaluate_answers user_choices quiz_data =
     (case score_loop user_choices quiz_data 0 0 [] of
        Inl e \<Rightarrow> Inl e
      | Inr (correct, details) \<Rightarrow>
          (let n = length quiz_data in
           if n = 0 then Inr (''No quiz generated yet.'', '''')
           else
             (let score_text = ''Score: '' @ str_int (int correct) @ '' / '' @ str_int (int n);
                  feedback =
                    (if correct = n then great_job
                     else if at_least_06 correct n then good_work
                     else keep_practicing)
              in Inr (score_text, feedback @ [newline, newline] @ join [newline] details))))"

subsection \<open>The loop, position by position\<close>

text \<open>
  The number of positions whose selection is the question's \<open>answer_index\<close>, and the
  detail line of every position, over \<open>enumerate(quiz_data)\<close>.
\<close>

definition correct_count :: "int option list \<Rightarrow> nat \<Rightarrow> quiz_question list \<Rightarrow> nat" where
  "correct_count user_choices i qs =
     length (filter (\<lambda>(k, q). selection_at user_choices k = Some (answer_index q)) (List.enumerate i qs))"

definition detail_lines :: "int option list \<Rightarrow> nat \<Rightarrow> quiz_question list \<Rightarrow> string list" where
  "detail_lines user_choices i qs =
     map (\<lambda>(k, q).
            detail_line k (selection_at user_choices k = Some (answer_index q))
              (chosen_label q (selection_at user_choices k))
              (options q ! nat (answer_index q)))
         (List.enumerate i qs)"

section \<open>The completion client\<close>







section \<open>The extractor: the loop computes the matcher\<close>

lemma py_find_absent: "py_find c xs = - 1 \<longleftrightarrow> c \<notin> set xs"
proof (induction xs)
  case Nil show ?case by simp
next
  case (Cons x xs)
  have "py_find c xs \<ge> - 1" for xs by (induction xs) (auto simp: Let_def)
  from this[of xs] have "py_find c xs + 1 \<noteq> - 1" by arith
  with Cons show ?case by (auto simp: Let_def)
qed

lemma py_find_lower: "- 1 \<le> py_find c xs"
  by (induction xs) (auto simp: Let_def)

lemma py_find_present:
  "c \<in> set xs \<Longrightarrow> py_find c xs = int (length (takeWhile (\<lambda>x. x \<noteq> c) xs))"
  by (induction xs) (auto simp: Let_def py_find_absent)

lemma slice_step:
  "start \<le> i \<Longrightarrow> i < length t \<Longrightarrow> slice t start (Suc i) = slice t start i @ [t ! i]"
  unfolding slice_def
  by (simp add: Suc_diff_le take_Suc_conv_app_nth)

lemma scan_from_balanced:
  "start \<le> i \<Longrightarrow> 1 \<le> d \<Longrightarrow>
   scan_from t start i d s e =
     map_option (\<lambda>p. slice t start i @ p)
       (balanced_prefix \<lparr>depth = d, in_string = s, escaped = e\<rparr> (drop i t))"
proof (induction t start i d s e rule: scan_from.induct)
  case (1 t start i d s e)
  show ?case
  proof (cases "i < length t")
    case False
    then show ?thesis by (subst scan_from.simps) simp
  next
    case True
    then have dr: "drop i t = t ! i # drop (Suc i) t"
      by (simp add: Cons_nth_drop_Suc)
    have sl: "slice t start (Suc i) = slice t start i @ [t ! i]"
      using slice_step "1.prems"(1) True by simp
    have le: "start \<le> i + 1" using "1.prems"(1) by simp
    note IH = "1.IH"[OF True]
    show ?thesis
      apply (subst scan_from.simps)
      using True "1.prems" IH le
      by (auto simp add: dr sl advance_def option.map_comp comp_def dquote_def backslash_def)
  qed
qed

lemma extract_eq_brace_matcher:
  "extract_first_json_object t = brace_matcher t"
proof (cases "CHR ''{'' \<in> set t")
  case False
  then have dw0: "dropWhile (\<lambda>c. c \<noteq> CHR ''{'') t = []" by (auto simp add: dropWhile_eq_Nil_conv)
  have "py_find (CHR ''{'') t = - 1" using False by (simp add: py_find_absent)
  then show ?thesis
    by (simp add: extract_first_json_object_def brace_matcher_def dw0)
next
  case True
  define k where "k = length (takeWhile (\<lambda>c. c \<noteq> CHR ''{'') t)"
  have "takeWhile (\<lambda>c. c \<noteq> CHR ''{'') t \<noteq> t"
    using True by auto
  then have klt: "k < length t"
    unfolding k_def using length_takeWhile_le[of "\<lambda>c. c \<noteq> CHR ''{''" t]
    by (metis (no_types, lifting) le_neq_implies_less takeWhile_eq_take take_all_iff order_refl)
  then have k: "k < length t" "t ! k = CHR ''{''"
    using nth_length_takeWhile[of "\<lambda>c. c \<noteq> CHR ''{''" t] unfolding k_def by auto
  have dw: "dropWhile (\<lambda>c. c \<noteq> CHR ''{'') t = drop k t"
    unfolding k_def by (simp add: dropWhile_eq_drop)
  have dr: "drop k t = CHR ''{'' # drop (Suc k) t"
    using k by (simp add: Cons_nth_drop_Suc[symmetric])
  have fnd: "py_find (CHR ''{'') t = int k"
    using True by (simp add: py_find_present k_def)
  have first: "scan_from t k k 0 False False = scan_from t k (k + 1) 1 False False"
    using k by (subst scan_from.simps) (simp add: dquote_def)
  have sl: "slice t k (Suc k) = [CHR ''{'']"
    using k by (simp add: slice_def take_Suc_conv_app_nth dr)
  show ?thesis
    using scan_from_balanced[of k "k + 1" 1 t False False]
    by (simp add: extract_first_json_object_def brace_matcher_def fnd first dw dr sl
        scanner_start_def advance_def dquote_def option.map_comp comp_def)
qed

text \<open>
  Claim C2. For every input text, \<open>_extract_first_json_object\<close> is the string-aware
  balanced-brace matcher of the specification: from the first \<open>{\<close> it returns the text
  through the character on which the depth counter returns to zero, braces inside
  string literals not counted, and it returns nothing when there is no \<open>{\<close> or the
  text ends first. So \<open>{"a": "b{c}d"}\<close> is extracted whole from the prose around
  it, and a text without \<open>{\<close> or with an object left open gives nothing.
\<close>

theorem extract_first_json_object_is_brace_matcher:
  "extract_first_json_object t = brace_matcher t
   \<and> extract_first_json_object ''Here: {\"a\": \"b{c}d\"} done {}'' = Some ''{\"a\": \"b{c}d\"}''
   \<and> extract_first_json_object ''no object here'' = None
   \<and> extract_first_json_object ''{\"a\": {\"b\": 1}'' = None"
proof -
  have "extract_first_json_object ''Here: {\"a\": \"b{c}d\"} done {}'' = Some ''{\"a\": \"b{c}d\"}''"
    by code_simp
  moreover have "extract_first_json_object ''no object here'' = None"
    by code_simp
  moreover have "extract_first_json_object ''{\"a\": {\"b\": 1}'' = None"
    by code_simp
  ultimately show ?thesis
    using extract_eq_brace_matcher by simp
qed

section \<open>The prompt builder: the context header\<close>

lemma sublist_skip: "sublist xs ys \<Longrightarrow> sublist xs (zs @ ys)"
  by (metis sublist_append)

lemma context_has_fields:
  "sublist subject (build_system_context subject topic language level @ rest)"
  "sublist topic (build_system_context subject topic language level @ rest)"
  "sublist language (build_system_context subject topic language level @ rest)"
  "sublist level (build_system_context subject topic language level @ rest)"
  unfolding build_system_context_def append_assoc
  by (intro sublist_appendI sublist_skip)+

text \<open>
  Claim C9. For each of the four task kinds and for all subject, topic, language and
  level strings, the empty string included, the prompt contains each of the four
  strings as a contiguous substring.
\<close>

theorem build_prompt_contains_context:
  "sublist subject (build_prompt kind subject topic language level) \<and>
   sublist topic (build_prompt kind subject topic language level) \<and>
   sublist language (build_prompt kind subject topic language level) \<and>
   sublist level (build_prompt kind subject topic language level)"
  by (cases kind)
    (simp_all only: build_prompt.simps prompt_explanation_def prompt_resources_def
      prompt_roadmap_def prompt_quiz_def Let_def context_has_fields simp_thms)

section \<open>\<open>json.loads\<close>: the decoder consumes its input\<close>

lemma prepend_Some: "prepend cs r = Some (s, rest) \<Longrightarrow> \<exists>s'. r = Some (s', rest)"
  by (auto simp: prepend_def)

lemma scanstring_consumes: "scanstring cs = Some (str, r) \<Longrightarrow> length r < length cs"
proof (induction "length cs" arbitrary: cs str r rule: less_induct)
  case less
  show ?case
  proof (cases cs)
    case Nil
    with less.prems show ?thesis by simp
  next
    case (Cons c cs')
    have step: "length r < length cs" if "scanstring X = Some (s', r)" "length X \<le> length cs'" for X s'
    proof -
      have "length X < length cs" using that(2) Cons by simp
      from less.hyps[OF this that(1)] this show ?thesis by simp
    qed
    from less.prems show ?thesis
      unfolding Cons scanstring.simps
      using Cons
      by (auto simp: Cons split: if_splits option.splits list.splits dest!: prepend_Some
          dest: step)
  qed
qed

lemma skip_ws_length: "length (skip_ws s) \<le> length s"
  by (simp add: skip_ws_def length_dropWhile_le)

lemma skip_ws_Cons: "skip_ws s = d # ds \<Longrightarrow> length ds < length s"
  using skip_ws_length[of s] by simp

lemma match_integer_consumes: "match_integer s = Some (i, r) \<Longrightarrow> length r < length s"
proof -
  have dw: "length (dropWhile is_digit ds) \<le> length ds" for ds
    by (rule length_dropWhile_le)
  assume "match_integer s = Some (i, r)"
  then show ?thesis
    using dw
    by (cases s) (auto simp: match_integer_def Let_def le_imp_less_Suc less_SucI
        split: if_splits list.splits)
qed

lemma match_frac_length: "match_frac s = (f, r) \<Longrightarrow> length r \<le> length s"
  using length_dropWhile_le[of is_digit]
  by (auto simp: match_frac_def le_SucI split: list.splits if_splits)

lemma drop_Cons_length: "drop n xs = y # ys \<Longrightarrow> length ys < length xs"
  by (metis length_drop diff_le_self impossible_Cons not_le_imp_less order_trans)

lemma match_exp_length: "match_exp s = (e, r) \<Longrightarrow> length r \<le> length s"
proof -
  have dw: "length (dropWhile is_digit ds) \<le> length ds" for ds
    by (rule length_dropWhile_le)
  have tail: "length (dropWhile is_digit ys) \<le> Suc (length xs)" if "drop n xs = y # ys" for n xs y ys
    using drop_Cons_length[OF that] dw[of ys] by simp
  assume "match_exp s = (e, r)"
  then show ?thesis
    using dw tail
    by (cases s) (auto simp: match_exp_def Let_def le_SucI split: list.splits if_splits)
qed

lemma match_number_consumes: "match_number s = Some (v, r) \<Longrightarrow> length r < length s"
proof -
  assume a: "match_number s = Some (v, r)"
  then obtain i r0 where i: "match_integer s = Some (i, r0)"
    by (auto simp: match_number_def split: option.splits)
  obtain f r1 where f: "match_frac r0 = (f, r1)" by (cases "match_frac r0")
  obtain e r2 where e: "match_exp r1 = (e, r2)" by (cases "match_exp r1")
  from a i f e have "r = r2" by (auto simp: match_number_def split: if_splits)
  with match_integer_consumes[OF i] match_frac_length[OF f] match_exp_length[OF e]
  show ?thesis by simp
qed

lemma decoders_consume:
  "(\<forall>s v r. scan_once n s = Some (v, r) \<longrightarrow> length r < length s)
   \<and> (\<forall>s vs r. JSONArray n s = Some (vs, r) \<longrightarrow> length r < length s)
   \<and> (\<forall>s ps r. JSONObject n s = Some (ps, r) \<longrightarrow> length r < length s)"
proof (induction n)
  case 0
  show ?case by simp
next
  case (Suc n)
  then have IHs: "\<And>s v r. scan_once n s = Some (v, r) \<Longrightarrow> length r < length s"
    and IHa: "\<And>s vs r. JSONArray n s = Some (vs, r) \<Longrightarrow> length r < length s"
    and IHo: "\<And>s ps r. JSONObject n s = Some (ps, r) \<Longrightarrow> length r < length s"
    by blast+
  have so: "length r < length s" if "scan_once (Suc n) s = Some (v, r)" for s v r
  proof (cases s)
    case Nil
    with that show ?thesis by simp
  next
    case (Cons c cs)
    consider (str) "c = dquote" | (obj) "c \<noteq> dquote" "c = CHR ''{''"
      | (arr) "c \<noteq> dquote" "c \<noteq> CHR ''{''" "c = CHR ''[''"
      | (atom) "c \<noteq> dquote" "c \<noteq> CHR ''{''" "c \<noteq> CHR ''[''" by blast
    then show ?thesis
    proof cases
      case str
      with that Cons obtain x where "scanstring cs = Some (x, r)" by auto
      from scanstring_consumes[OF this] Cons show ?thesis by simp
    next
      case obj
      with that Cons obtain d ds where sk: "skip_ws cs = d # ds"
        by (auto split: list.splits)
      show ?thesis
      proof (cases "d = CHR ''}''")
        case True
        with that Cons obj sk have "r = ds" by auto
        with skip_ws_Cons[OF sk] Cons show ?thesis by simp
      next
        case False
        with that Cons obj sk obtain ps where "JSONObject n ds = Some (ps, r)"
          by (auto split: if_splits)
        from IHo[OF this] skip_ws_Cons[OF sk] Cons show ?thesis by simp
      qed
    next
      case arr
      with that Cons obtain d ds where sk: "skip_ws cs = d # ds"
        by (auto split: list.splits)
      show ?thesis
      proof (cases "d = CHR '']''")
        case True
        with that Cons arr sk have "r = ds" by auto
        with skip_ws_Cons[OF sk] Cons show ?thesis by simp
      next
        case False
        with that Cons arr sk obtain vs where "JSONArray n (d # ds) = Some (vs, r)"
          by (auto split: if_splits)
        from IHa[OF this] skip_ws_length[of cs] sk Cons show ?thesis by simp
      qed
    next
      case atom
      have dr: "length (drop k s) < length s" if "0 < k" for k
        using that Cons by simp
      from that atom show ?thesis
        unfolding Cons scan_once.simps
        using dr[unfolded Cons] match_number_consumes[of "c # cs"]
        by (auto split: if_splits option.splits)
    qed
  qed
  have ar: "length r < length s" if "JSONArray (Suc n) s = Some (vs, r)" for s vs r
  proof -
    from that obtain v r1 where v: "scan_once n s = Some (v, r1)"
      by (auto split: option.splits)
    with that obtain d ds where sk: "skip_ws r1 = d # ds"
      by (auto split: list.splits)
    have l1: "length ds < length s" using IHs[OF v] skip_ws_Cons[OF sk] by simp
    show ?thesis
    proof (cases "d = CHR '']''")
      case True
      with that v sk have "r = ds" by auto
      with l1 show ?thesis by simp
    next
      case False
      with that v sk obtain vs' where "JSONArray n (skip_ws ds) = Some (vs', r)"
        by (auto split: if_splits)
      from IHa[OF this] skip_ws_length[of ds] l1 show ?thesis by simp
    qed
  qed
  have ob: "length r < length s" if "JSONObject (Suc n) s = Some (ps, r)" for s ps r
  proof -
    from that obtain key r0 where k: "scanstring s = Some (key, r0)"
      by (auto split: option.splits)
    with that obtain c cs where sk0: "skip_ws r0 = c # cs"
      by (auto split: list.splits)
    with that k obtain v r2 where v: "scan_once n (skip_ws cs) = Some (v, r2)"
      by (auto split: if_splits option.splits)
    with that k sk0 obtain d ds where sk2: "skip_ws r2 = d # ds"
      by (auto split: if_splits list.splits)
    have l0: "length cs < length s" using scanstring_consumes[OF k] skip_ws_Cons[OF sk0] by simp
    have l2: "length ds < length s"
      using IHs[OF v] skip_ws_length[of cs] skip_ws_Cons[OF sk2] l0 by simp
    show ?thesis
    proof (cases "d = CHR ''}''")
      case True
      with that k sk0 v sk2 have "r = ds" by (auto split: if_splits)
      with l2 show ?thesis by simp
    next
      case False
      with that k sk0 v sk2 obtain q qs ps' where "skip_ws ds = q # qs" "JSONObject n qs = Some (ps', r)"
        by (auto split: if_splits list.splits)
      from IHo[OF this(2)] skip_ws_Cons[OF this(1)] l2 show ?thesis by simp
    qed
  qed
  from so ar ob show ?case by blast
qed

lemmas consume_scan = decoders_consume[THEN conjunct1, rule_format]

lemma fuel_step:
  "(\<forall>s. 2 * length s + 1 \<le> n \<longrightarrow> scan_once (Suc n) s = scan_once n s)
   \<and> (\<forall>s. 2 * length s + 2 \<le> n \<longrightarrow> JSONArray (Suc n) s = JSONArray n s)
   \<and> (\<forall>s. 2 * length s + 2 \<le> n \<longrightarrow> JSONObject (Suc n) s = JSONObject n s)"
proof (induction n)
  case 0
  show ?case by simp
next
  case (Suc n)
  then have IHs: "\<And>s. 2 * length s + 1 \<le> n \<Longrightarrow> scan_once (Suc n) s = scan_once n s"
    and IHa: "\<And>s. 2 * length s + 2 \<le> n \<Longrightarrow> JSONArray (Suc n) s = JSONArray n s"
    and IHo: "\<And>s. 2 * length s + 2 \<le> n \<Longrightarrow> JSONObject (Suc n) s = JSONObject n s"
    by blast+
  have so: "scan_once (Suc (Suc n)) s = scan_once (Suc n) s" if b: "2 * length s + 1 \<le> Suc n" for s
  proof (cases s)
    case Nil
    then show ?thesis by simp
  next
    case (Cons c cs)
    have o: "JSONObject (Suc n) ds = JSONObject n ds" if "skip_ws cs = d # ds" for d ds
      using skip_ws_Cons[OF that] b Cons by (intro IHo) simp
    have a: "JSONArray (Suc n) (d # ds) = JSONArray n (d # ds)" if "skip_ws cs = d # ds" for d ds
      using skip_ws_length[of cs] that b Cons by (intro IHa) simp
    show ?thesis
      unfolding Cons scan_once.simps(3)[of "Suc n" c cs] scan_once.simps(3)[of n c cs]
      by (auto split: list.splits simp: o a
          simp del: scan_once.simps JSONArray.simps JSONObject.simps)
  qed
  have ar: "JSONArray (Suc (Suc n)) s = JSONArray (Suc n) s" if b: "2 * length s + 2 \<le> Suc n" for s
  proof -
    have s1: "scan_once (Suc n) s = scan_once n s" using b by (intro IHs) simp
    show ?thesis
    proof (cases "scan_once n s")
      case None
      with s1 show ?thesis
        unfolding JSONArray.simps(2)[of "Suc n" s] JSONArray.simps(2)[of n s]
        by (simp del: scan_once.simps JSONArray.simps JSONObject.simps)
    next
      case (Some vr)
      obtain v r where vr: "vr = (v, r)" by (cases vr)
      from Some vr have l: "length r < length s" using consume_scan by blast
      have a: "JSONArray (Suc n) (skip_ws ds) = JSONArray n (skip_ws ds)" if "skip_ws r = d # ds" for d ds
        using skip_ws_Cons[OF that] skip_ws_length[of ds] l b by (intro IHa) simp
      show ?thesis
        unfolding JSONArray.simps(2)[of "Suc n" s] JSONArray.simps(2)[of n s]
        using s1 Some vr
        by (auto split: list.splits simp: a
            simp del: scan_once.simps JSONArray.simps JSONObject.simps)
    qed
  qed
  have ob: "JSONObject (Suc (Suc n)) s = JSONObject (Suc n) s" if b: "2 * length s + 2 \<le> Suc n" for s
  proof (cases "scanstring s")
    case None
    then show ?thesis
      unfolding JSONObject.simps(2)[of "Suc n" s] JSONObject.simps(2)[of n s]
      by (simp del: scan_once.simps JSONArray.simps JSONObject.simps)
  next
    case (Some kr)
    obtain key r0 where kr: "kr = (key, r0)" by (cases kr)
    from Some kr have l0: "length r0 < length s" using scanstring_consumes by blast
    show ?thesis
    proof (cases "skip_ws r0")
      case Nil
      with Some kr show ?thesis
        unfolding JSONObject.simps(2)[of "Suc n" s] JSONObject.simps(2)[of n s]
        by (simp del: scan_once.simps JSONArray.simps JSONObject.simps)
    next
      case (Cons c cs)
      have lc: "length (skip_ws cs) < length s"
        using skip_ws_Cons[OF Cons] skip_ws_length[of cs] l0 by simp
      have s1: "scan_once (Suc n) (skip_ws cs) = scan_once n (skip_ws cs)"
        using lc b by (intro IHs) simp
      show ?thesis
      proof (cases "scan_once n (skip_ws cs)")
        case None
        with Some kr Cons s1 show ?thesis
          unfolding JSONObject.simps(2)[of "Suc n" s] JSONObject.simps(2)[of n s]
          by (simp del: scan_once.simps JSONArray.simps JSONObject.simps)
      next
        case v: (Some vr)
        obtain v r2 where vr: "vr = (v, r2)" by (cases vr)
        from v vr have l2: "length r2 < length (skip_ws cs)" using consume_scan by blast
        have o: "JSONObject (Suc n) qs = JSONObject n qs"
          if "skip_ws r2 = d # ds" "skip_ws ds = q # qs" for d ds q qs
          using skip_ws_Cons[OF that(1)] skip_ws_Cons[OF that(2)] l2 lc b by (intro IHo) simp
        show ?thesis
          unfolding JSONObject.simps(2)[of "Suc n" s] JSONObject.simps(2)[of n s]
          using Some kr Cons s1 v vr
          by (auto split: list.splits simp: o
              simp del: scan_once.simps JSONArray.simps JSONObject.simps)
      qed
    qed
  qed
  from so ar ob show ?case by blast
qed

lemma scan_once_fuel:
  "2 * length s + 1 \<le> n \<Longrightarrow> scan_once (n + k) s = scan_once n s"
proof (induction k)
  case 0
  show ?case by simp
next
  case (Suc k)
  have "scan_once (Suc (n + k)) s = scan_once (n + k) s"
    using Suc.prems fuel_step[of "n + k"] by simp
  with Suc show ?case by simp
qed

text \<open>
  More fuel changes nothing: twice the length of the text plus two is all the decoder
  can use, so \<open>json_loads\<close> never fails for lack of it.
\<close>

lemma json_loads_fuel:
  "json_loads s =
     (case scan_once (2 * length s + 2 + k) (skip_ws s) of
        None \<Rightarrow> None
      | Some (v, r) \<Rightarrow> if skip_ws r = [] then Some v else None)"
proof -
  have "2 * length (skip_ws s) + 1 \<le> 2 * length s + 2"
    using skip_ws_length[of s] by simp
  from scan_once_fuel[OF this, of k] show ?thesis
    by (simp add: json_loads_def)
qed

section \<open>Reading the quiz: the worked example and the values that are not a dict\<close>

text \<open>
  Claim C7. On the text
  \<open>Sure! {"questions":[{"question":"2+2?","options":["3","4","5"],"answer_index":1}]} Hope that helps!\<close>
  \<open>parse_quiz_json\<close> followed by \<open>normalize_quiz\<close> yields exactly one question record,
  and its \<open>answer_index\<close> is 1.
\<close>

theorem parse_then_normalize_example:
  "normalize_quiz repr
     (parse_quiz_json
        ''Sure! {\"questions\":[{\"question\":\"2+2?\",\"options\":[\"3\",\"4\",\"5\"],\"answer_index\":1}]} Hope that helps!'')
   = Inr [\<lparr>question = ''2+2?'', options = [''3'', ''4'', ''5''], answer_index = 1\<rparr>]"
  by code_simp

subsection \<open>What \<open>parse_quiz_json\<close> can return\<close>

lemma balanced_prefix_nonempty: "balanced_prefix s cs = Some b \<Longrightarrow> b \<noteq> [] \<and> hd b = hd cs"
  by (cases cs) (auto split: if_splits)

lemma extract_starts_with_brace:
  assumes "extract_first_json_object raw = Some block"
  shows "\<exists>rest. block = CHR ''{'' # rest"
proof -
  from assms have bm: "brace_matcher raw = Some block"
    by (simp add: extract_eq_brace_matcher)
  then obtain c cs where dw: "dropWhile (\<lambda>c. c \<noteq> CHR ''{'') raw = c # cs"
    and bp: "balanced_prefix scanner_start (c # cs) = Some block"
    by (auto simp: brace_matcher_def split: list.splits)
  from dw have "c = CHR ''{''"
    by (metis (mono_tags, lifting) hd_dropWhile list.sel(1) list.discI)
  moreover from bp have "block \<noteq> [] \<and> hd block = c"
    using balanced_prefix_nonempty by fastforce
  ultimately show ?thesis by (cases block) auto
qed

lemma json_loads_object:
  assumes "json_loads (CHR ''{'' # rest) = Some v"
  shows "is_dict v"
proof -
  have sk: "skip_ws (CHR ''{'' # rest) = CHR ''{'' # rest"
    by (simp add: skip_ws_def is_json_space_def)
  obtain n where n: "2 * length (CHR ''{'' # rest) + 2 = Suc n" by simp
  from assms show ?thesis
    unfolding json_loads_def sk n
    by (auto simp: is_dict_def dquote_def split: option.splits list.splits if_splits)
qed

text \<open>
  \<open>parse_quiz_json\<close> returns on every text. The result is a dict with a \<open>questions\<close>
  key, unless the whole text is JSON for a value that is not a dict and that passes
  the membership test: then that value is returned. (This is of the decoder as
  modelled, without the interpreter's limits; on a text where Python's decoder stops
  at one of them, that attempt counts as failed.)
\<close>

lemma parse_quiz_json_result:
  "(\<exists>d. parse_quiz_json raw = JDict d \<and> map_of d ''questions'' \<noteq> None)
   \<or> (json_loads raw = Some (parse_quiz_json raw) \<and> \<not> is_dict (parse_quiz_json raw))"
proof (cases "try_parse raw")
  case (Some parsed)
  then have pq: "parse_quiz_json raw = parsed" by (simp add: parse_quiz_json_def)
  from Some have jl: "json_loads raw = Some parsed" and cq: "contains_questions parsed = Inr True"
    by (auto simp: try_parse_def split: option.splits sum.splits if_splits)
  show ?thesis
  proof (cases "is_dict parsed")
    case True
    then obtain d where "parsed = JDict d" by (auto simp: is_dict_def split: json.splits)
    with cq pq show ?thesis by auto
  next
    case False
    with jl pq show ?thesis by simp
  qed
next
  case None
  show ?thesis
  proof (cases "extract_first_json_object raw")
    case n: None
    with None show ?thesis by (simp add: parse_quiz_json_def)
  next
    case (Some block)
    then obtain rest where b: "block = CHR ''{'' # rest" using extract_starts_with_brace by blast
    show ?thesis
    proof (cases "try_parse block")
      case n: None
      with None Some b show ?thesis by (simp add: parse_quiz_json_def)
    next
      case s: (Some parsed)
      then have jl: "json_loads block = Some parsed" and cq: "contains_questions parsed = Inr True"
        by (auto simp: try_parse_def split: option.splits sum.splits if_splits)
      from jl b have "is_dict parsed" using json_loads_object by blast
      then obtain d where "parsed = JDict d" by (auto simp: is_dict_def split: json.splits)
      with cq None Some b s show ?thesis by (auto simp: parse_quiz_json_def)
    qed
  qed
qed

text \<open>
  Claim C3, where the program departs from it. The claim accepts a parse only when it
  has a \<open>questions\<close> key and otherwise ends in the empty structure. The text
  \<open>["questions"]\<close> is JSON for a list, and \<open>"questions" in parsed\<close> holds of that
  list, so \<open>parse_quiz_json\<close> returns the list (the second case of the lemma above);
  \<open>normalize_quiz\<close> then raises \<open>AttributeError\<close> on it.
\<close>

theorem parse_quiz_json_returns_list:
  "parse_quiz_json ''[\"questions\"]'' = JList [JStr ''questions'']
   \<and> normalize_quiz repr (parse_quiz_json ''[\"questions\"]'') = Inl AttributeError"
  by code_simp

section \<open>Normalizing: items that are not dicts\<close>

text \<open>
  Claim C1, where the program departs from it. An item of \<open>questions\<close> that is not a
  dict is not dropped: \<open>q.get\<close> raises \<open>AttributeError\<close>, and the valid question before
  it is lost with the whole result.
\<close>

theorem normalize_quiz_raises_on_non_dict_item:
  "normalize_quiz repr
     (parse_quiz_json
        ''{\"questions\":[{\"question\":\"2+2?\",\"options\":[\"3\",\"4\",\"5\"],\"answer_index\":1},5]}'')
   = Inl AttributeError
   \<and> parse_quiz_json
        ''{\"questions\":[{\"question\":\"2+2?\",\"options\":[\"3\",\"4\",\"5\"],\"answer_index\":1},5]}''
     = JDict [(''questions'',
         JList [JDict [(''question'', JStr ''2+2?''),
                       (''options'', JList [JStr ''3'', JStr ''4'', JStr ''5'']),
                       (''answer_index'', JInt 1)],
                JInt 5])]"
  by code_simp

text \<open>
  On a \<open>questions\<close> list whose items are all dicts nothing raises, and the result is
  as the claim has it: the items that pass the checks, cleaned, in their order, cut
  to the first five. An item passes exactly when its \<open>question\<close> is a string, its
  \<open>options\<close> a list of three to five items and its \<open>answer_index\<close> an \<open>int\<close> (a \<open>bool\<close>
  counts as one in Python) that indexes the options.
\<close>

lemma clean_dict: "is_dict q \<Longrightarrow> clean repr q = Inr (kept repr q)"
  by (cases q) (auto simp: is_dict_def kept_def clean_def Let_def split: json.splits)

lemma normalize_loop_dicts:
  "\<forall>q \<in> set qs. is_dict q \<Longrightarrow>
   normalize_loop repr qs acc = Inr (acc @ List.map_filter (kept repr) qs)"
proof (induction qs arbitrary: acc)
  case Nil
  show ?case by (simp add: List.map_filter_simps)
next
  case (Cons q qs)
  then show ?case
    by (cases "kept repr q") (simp_all add: clean_dict List.map_filter_simps)
qed

lemma normalize_quiz_dicts:
  assumes "dict_get d ''questions'' (JList []) = JList qs" and "\<forall>q \<in> set qs. is_dict q"
  shows "normalize_quiz repr (JDict d) = Inr (take 5 (List.map_filter (kept repr) qs))"
  using assms by (simp add: normalize_quiz_def normalize_loop_dicts)

lemma kept_iff:
  "kept repr (JDict e) = Some r \<longleftrightarrow>
     (\<exists>qtext opts ai.
        map_of e ''question'' = Some (JStr qtext) \<and> map_of e ''options'' = Some (JList opts)
      \<and> map_of e ''answer_index'' = Some ai \<and> isinstance_int ai
      \<and> 3 \<le> length opts \<and> length opts \<le> 5 \<and> 0 \<le> int_of ai \<and> int_of ai < int (length opts)
      \<and> r = \<lparr>question = strip qtext, options = map (\<lambda>opt. strip (py_str repr opt)) opts,
               answer_index = int_of ai\<rparr>)"
  by (auto simp: kept_def clean_def dict_get_def Let_def isinstance_int_def
      split: option.splits json.splits)

section \<open>Normalizing: what a kept record looks like\<close>

lemma find_SomeD: "List.find P xs = Some x \<Longrightarrow> x \<in> set xs \<and> P x"
  by (induction xs) (auto split: if_splits)

lemma code_at_head_zero:
  "[] \<notin> set codes \<Longrightarrow> code_at_head codes s = 0 \<longleftrightarrow> (\<forall>w \<in> set codes. \<not> prefix w s)"
  unfolding code_at_head_def
  by (auto split: option.splits simp: find_None_iff dest: find_SomeD)

lemma code_at_head_le: "code_at_head codes s \<le> length s"
  unfolding code_at_head_def
  by (auto split: option.splits dest!: find_SomeD simp: prefix_length_le)

lemma code_at_head_strip_head: "code_at_head codes (strip_head codes s) = 0"
proof (induction codes s rule: strip_head.induct)
  case (1 codes s)
  show ?case
  proof (cases "s \<noteq> [] \<and> 0 < code_at_head codes s")
    case True
    then show ?thesis using 1 by (subst strip_head.simps) simp
  next
    case False
    have "code_at_head codes [] = 0" using code_at_head_le[of codes "[]"] by simp
    with False show ?thesis by (subst strip_head.simps) auto
  qed
qed

lemma strip_head_fixed: "code_at_head codes s = 0 \<Longrightarrow> strip_head codes s = s"
  by (subst strip_head.simps) simp

lemma strip_head_suffix: "suffix (strip_head codes s) s"
proof (induction codes s rule: strip_head.induct)
  case (1 codes s)
  show ?case
  proof (cases "s \<noteq> [] \<and> 0 < code_at_head codes s")
    case True
    then have "suffix (strip_head codes (drop (code_at_head codes s) s)) (drop (code_at_head codes s) s)"
      using 1 by simp
    then have "suffix (strip_head codes (drop (code_at_head codes s) s)) s"
      using suffix_drop suffix_order.trans by blast
    then show ?thesis using True by (subst strip_head.simps) simp
  next
    case False
    then show ?thesis by (subst strip_head.simps) auto
  qed
qed

lemma whitespace_nonempty: "[] \<notin> set whitespace"
  by (simp add: whitespace_def)

lemma lstrip_clean: "code_at_head whitespace (lstrip s) = 0"
  by (simp add: lstrip_def code_at_head_strip_head)

lemma rstrip_prefix: "prefix (rstrip s) s"
  unfolding rstrip_def using strip_head_suffix[of "map rev whitespace" "rev s"]
  by (metis rev_rev_ident suffix_to_prefix)

lemma rstrip_fixed: "rstrip (rstrip s) = rstrip s"
  unfolding rstrip_def by (simp add: strip_head_fixed code_at_head_strip_head)

text \<open>Trimming leaves nothing to trim: no whitespace at either end of the result.\<close>

lemma strip_idem: "strip (strip s) = strip s"
proof -
  define a where "a = lstrip s"
  define b where "b = rstrip a"
  have "\<forall>w \<in> set whitespace. \<not> prefix w a"
    using lstrip_clean[of s] code_at_head_zero[OF whitespace_nonempty] by (simp add: a_def)
  moreover have "prefix b a" unfolding b_def by (rule rstrip_prefix)
  ultimately have "\<forall>w \<in> set whitespace. \<not> prefix w b"
    using prefix_order.trans by blast
  then have "lstrip b = b"
    unfolding lstrip_def using code_at_head_zero[OF whitespace_nonempty] strip_head_fixed by blast
  moreover have "rstrip b = b" unfolding b_def by (rule rstrip_fixed)
  ultimately show ?thesis by (simp add: strip_def a_def b_def)
qed

lemma clean_well_formed:
  "clean repr q = Inr (Some r) \<Longrightarrow> well_formed r"
  by (auto simp: clean_def Let_def well_formed_def valid_index_def strip_idem list_all_iff
      split: json.splits if_splits)

lemma normalize_loop_well_formed:
  "normalize_loop repr qs acc = Inr rs \<Longrightarrow> list_all well_formed acc \<Longrightarrow> list_all well_formed rs"
proof (induction qs arbitrary: acc)
  case Nil
  then show ?case by simp
next
  case (Cons q qs)
  then show ?case
    by (auto split: sum.splits option.splits dest: clean_well_formed)
qed

lemma normalize_quiz_well_formed:
  assumes "normalize_quiz repr quiz = Inr rs"
  shows "list_all well_formed rs \<and> length rs \<le> 5"
proof -
  from assms obtain qs cleaned where
    "normalize_loop repr qs [] = Inr cleaned" and rs: "rs = take 5 cleaned"
    by (auto simp: normalize_quiz_def split: json.splits sum.splits)
  then have "list_all well_formed cleaned"
    using normalize_loop_well_formed by fastforce
  then show ?thesis
    using rs by (auto simp: list_all_iff dest: in_set_takeD)
qed

text \<open>
  Claim C4 as stated fails: a question that is empty or all whitespace passes every
  check of \<open>normalize_quiz\<close> and is kept with the empty text.
\<close>

theorem normalize_keeps_blank_question:
  "normalize_quiz (\<lambda>v. [])
     (JDict [(''questions'', JList [JDict [(''question'', JStr ''   ''),
        (''options'', JList [JStr ''a'', JStr ''b'', JStr ''c'']), (''answer_index'', JInt 0)]])])
   = Inr [\<lparr>question = [], options = [''a'', ''b'', ''c''], answer_index = 0\<rparr>]"
  by code_simp

text \<open>
  Claim C4, amended. Every record \<open>normalize_quiz\<close> returns has a question text with no
  whitespace at either end (it may be empty), and no partially valid question is
  kept: the record has three to five options, each trimmed, and an \<open>answer_index\<close>
  that indexes them.
\<close>

theorem normalized_record_trimmed_and_valid:
  assumes "normalize_quiz repr quiz = Inr rs" and "r \<in> set rs"
  shows "strip (question r) = question r
       \<and> (\<forall>opt \<in> set (options r). strip opt = opt)
       \<and> 3 \<le> length (options r) \<and> length (options r) \<le> 5
       \<and> 0 \<le> answer_index r \<and> answer_index r < int (length (options r))"
proof -
  have "list_all well_formed rs"
    using normalize_quiz_well_formed[OF assms(1)] by simp
  then have "well_formed r"
    using assms(2) by (simp add: list_all_iff)
  then show ?thesis
    by (simp add: well_formed_def valid_index_def list_all_iff)
qed

text \<open>The amended claim at the question \<open>"  2+2? "\<close> with the options 3, 4 and 5.\<close>

theorem normalized_record_trimmed_and_valid_witness:
  "normalize_quiz (\<lambda>v. [])
     (JDict [(''questions'', JList [JDict [(''question'', JStr ''  2+2? ''),
        (''options'', JList [JStr ''3'', JInt 4, JStr '' 5'']), (''answer_index'', JInt 1)]])])
   = Inr [\<lparr>question = ''2+2?'', options = [''3'', ''4'', ''5''], answer_index = 1\<rparr>]
   \<and> strip ''2+2?'' = ''2+2?''
   \<and> list_all (\<lambda>opt. strip opt = opt) [''3'', ''4'', ''5'']"
proof -
  let ?quiz = "JDict [(''questions'', JList [JDict [(''question'', JStr ''  2+2? ''),
        (''options'', JList [JStr ''3'', JInt 4, JStr '' 5'']), (''answer_index'', JInt 1)]])]"
  let ?r = "\<lparr>question = ''2+2?'', options = [''3'', ''4'', ''5''], answer_index = 1\<rparr>"
  have run: "normalize_quiz (\<lambda>v. []) ?quiz = Inr [?r]"
    by code_simp
  have "?r \<in> set [?r]" by simp
  from normalized_record_trimmed_and_valid[OF run this] run
  show ?thesis by (simp add: list_all_iff)
qed

section \<open>Scoring: verdicts, tiers and missing selections\<close>

subsection \<open>The threshold of 60 percent\<close>





subsection \<open>The loop\<close>

lemma py_getitem_valid:
  "valid_index q \<Longrightarrow> py_getitem (options q) (answer_index q) = Inr (options q ! nat (answer_index q))"
  by (simp add: valid_index_def py_getitem_def)

lemma score_loop_valid:
  "\<forall>q \<in> set qs. valid_index q \<Longrightarrow>
   score_loop sel qs i c ds = Inr (c + correct_count sel i qs, ds @ detail_lines sel i qs)"
proof (induction qs arbitrary: i c ds)
  case Nil
  show ?case by (simp add: correct_count_def detail_lines_def)
next
  case (Cons q qs)
  then have q: "valid_index q" and rest: "\<forall>q \<in> set qs. valid_index q" by simp_all
  show ?case
    by (simp add: Let_def py_getitem_valid[OF q] Cons.IH[OF rest] is_correct_def
        correct_count_def detail_lines_def)
qed

lemma length_detail_lines: "length (detail_lines sel i qs) = length qs"
  by (simp add: detail_lines_def)

lemma enumerate_positions:
  "List.enumerate 0 qs = map (\<lambda>i. (i, qs ! i)) [0..<length qs]"
  by (rule nth_equalityI) (simp_all add: nth_enumerate_eq)

text \<open>
  The count and the lines of the loop written out position by position, in terms of
  the selections themselves.
\<close>

lemma correct_count_positions:
  "correct_count sel 0 quiz =
     length (filter (\<lambda>i. i < length sel \<and> sel ! i = Some (answer_index (quiz ! i)))
               [0..<length quiz])"
proof -
  have "correct_count sel 0 quiz =
      length (filter (\<lambda>i. selection_at sel i = Some (answer_index (quiz ! i))) [0..<length quiz])"
    by (simp add: correct_count_def enumerate_positions filter_map comp_def)
  also have "filter (\<lambda>i. selection_at sel i = Some (answer_index (quiz ! i))) [0..<length quiz]
      = filter (\<lambda>i. i < length sel \<and> sel ! i = Some (answer_index (quiz ! i))) [0..<length quiz]"
    by (rule filter_cong) (auto simp: selection_at_def)
  finally show ?thesis .
qed

lemma detail_lines_positions:
  "detail_lines sel 0 quiz =
     map (\<lambda>i. ''Q'' @ str_int (int i + 1) @ '': '' @
               (if i < length sel \<and> sel ! i = Some (answer_index (quiz ! i))
                then check_mark @ '' Correct'' else cross_mark @ '' Incorrect'') @
               '' | Your answer: '' @
               (case (if i < length sel then sel ! i else None) of
                  None \<Rightarrow> ''No answer''
                | Some u \<Rightarrow>
                    if 0 \<le> u \<and> u < int (length (options (quiz ! i)))
                    then options (quiz ! i) ! nat u else ''No answer'') @
               '' | Correct: '' @ options (quiz ! i) ! nat (answer_index (quiz ! i)))
         [0..<length quiz]"
  by (simp add: detail_lines_def enumerate_positions comp_def detail_line_def chosen_label_def
      selection_at_def)

text \<open>
  Claim C6. For every quiz (each question with a valid \<open>answer_index\<close>) and every
  list of selections, the loop returns the number of positions \<open>i\<close> whose selection
  \<open>sel[i]\<close> is the question's \<open>answer_index\<close>, and one detail line per position:
  \<open>Qn:\<close>, the mark and \<open>Correct\<close> exactly when \<open>sel[i]\<close> is the \<open>answer_index\<close>,
  \<open>Your answer:\<close> with the label of the option selected, and \<open>Correct:\<close> with the
  label of the option at \<open>answer_index\<close>. A position that has no selection, or
  \<open>None\<close>, or an index outside \<open>[0, len(options))\<close>, is not counted, and the label
  of its answer is \<open>No answer\<close>.
\<close>

theorem score_loop_verdicts:
  assumes "\<forall>q \<in> set quiz. valid_index q"
  shows "score_loop sel quiz 0 0 [] =
           Inr (length (filter (\<lambda>i. i < length sel \<and> sel ! i = Some (answer_index (quiz ! i)))
                          [0..<length quiz]),
                map (\<lambda>i. ''Q'' @ str_int (int i + 1) @ '': '' @
                          (if i < length sel \<and> sel ! i = Some (answer_index (quiz ! i))
                           then check_mark @ '' Correct'' else cross_mark @ '' Incorrect'') @
                          '' | Your answer: '' @
                          (case (if i < length sel then sel ! i else None) of
                             None \<Rightarrow> ''No answer''
                           | Some u \<Rightarrow>
                               if 0 \<le> u \<and> u < int (length (options (quiz ! i)))
                               then options (quiz ! i) ! nat u else ''No answer'') @
                          '' | Correct: '' @ options (quiz ! i) ! nat (answer_index (quiz ! i)))
                    [0..<length quiz])
         \<and> (\<forall>i < length quiz.
               (length sel \<le> i \<or> sel ! i = None
                \<or> (\<exists>u. sel ! i = Some u \<and> (u < 0 \<or> int (length (options (quiz ! i))) \<le> u)))
               \<longrightarrow> \<not> (i < length sel \<and> sel ! i = Some (answer_index (quiz ! i)))
                 \<and> (case (if i < length sel then sel ! i else None) of
                       None \<Rightarrow> ''No answer''
                     | Some u \<Rightarrow>
                         if 0 \<le> u \<and> u < int (length (options (quiz ! i)))
                         then options (quiz ! i) ! nat u else ''No answer'') = ''No answer'')"
proof (intro conjI allI impI)
  show "score_loop sel quiz 0 0 [] =
           Inr (length (filter (\<lambda>i. i < length sel \<and> sel ! i = Some (answer_index (quiz ! i)))
                          [0..<length quiz]),
                map (\<lambda>i. ''Q'' @ str_int (int i + 1) @ '': '' @
                          (if i < length sel \<and> sel ! i = Some (answer_index (quiz ! i))
                           then check_mark @ '' Correct'' else cross_mark @ '' Incorrect'') @
                          '' | Your answer: '' @
                          (case (if i < length sel then sel ! i else None) of
                             None \<Rightarrow> ''No answer''
                           | Some u \<Rightarrow>
                               if 0 \<le> u \<and> u < int (length (options (quiz ! i)))
                               then options (quiz ! i) ! nat u else ''No answer'') @
                          '' | Correct: '' @ options (quiz ! i) ! nat (answer_index (quiz ! i)))
                    [0..<length quiz])"
    using score_loop_valid[OF assms, of sel 0 0 "[]"]
    by (simp only: correct_count_positions detail_lines_positions add_0 append_Nil)
next
  fix i
  assume i: "i < length quiz"
    and u: "length sel \<le> i \<or> sel ! i = None
            \<or> (\<exists>u. sel ! i = Some u \<and> (u < 0 \<or> int (length (options (quiz ! i))) \<le> u))"
  from assms i have v: "valid_index (quiz ! i)" by simp
  from u v show "\<not> (i < length sel \<and> sel ! i = Some (answer_index (quiz ! i)))"
    by (auto simp: valid_index_def)
  from u show "(case (if i < length sel then sel ! i else None) of
                       None \<Rightarrow> ''No answer''
                     | Some u \<Rightarrow>
                         if 0 \<le> u \<and> u < int (length (options (quiz ! i)))
                         then options (quiz ! i) ! nat u else ''No answer'') = ''No answer''"
    by auto
qed

text \<open>
  Claim C6 at four copies of the question with the options A, B, C and the answer C,
  and the selections 2 (correct), 0 (the wrong option A), 7 (out of range) and
  \<open>None\<close>: one is counted, and the four lines are as written.
\<close>

theorem score_loop_verdicts_witness:
  "valid_index \<lparr>question = ''Pick C'', options = [''A'', ''B'', ''C''], answer_index = 2\<rparr>
   \<and> score_loop [Some 2, Some 0, Some 7, None]
        [\<lparr>question = ''Pick C'', options = [''A'', ''B'', ''C''], answer_index = 2\<rparr>,
         \<lparr>question = ''Pick C'', options = [''A'', ''B'', ''C''], answer_index = 2\<rparr>,
         \<lparr>question = ''Pick C'', options = [''A'', ''B'', ''C''], answer_index = 2\<rparr>,
         \<lparr>question = ''Pick C'', options = [''A'', ''B'', ''C''], answer_index = 2\<rparr>] 0 0 []
       = Inr (1,
           [''Q1: '' @ [CHR 0xE2, CHR 0x9C, CHR 0x85] @ '' Correct | Your answer: C | Correct: C'',
            ''Q2: '' @ [CHR 0xE2, CHR 0x9D, CHR 0x8C] @ '' Incorrect | Your answer: A | Correct: C'',
            ''Q3: '' @ [CHR 0xE2, CHR 0x9D, CHR 0x8C] @ '' Incorrect | Your answer: No answer | Correct: C'',
            ''Q4: '' @ [CHR 0xE2, CHR 0x9D, CHR 0x8C] @ '' Incorrect | Your answer: No answer | Correct: C''])"
proof -
  let ?q = "\<lparr>question = ''Pick C'', options = [''A'', ''B'', ''C''], answer_index = 2\<rparr>"
  have v: "valid_index ?q" by (simp add: valid_index_def)
  then have "\<forall>q \<in> set [?q, ?q, ?q, ?q]. valid_index q" by simp
  from score_loop_verdicts[OF this, of "[Some 2, Some 0, Some 7, None]", THEN conjunct1] v
  show ?thesis
    by (simp add: upt_rec str_int_def digits.simps check_mark_def cross_mark_def)
qed



text \<open>
  Claim C10. For every quiz (each question with a valid \<open>answer_index\<close>) and every
  list of selections, shorter than the quiz or not, \<open>evaluate_answers\<close> returns and
  does not raise. What it returns: the score counts only positions that have a
  selection, and the line of a position past the end of the selections is
  \<open>Qn:\<close>, the cross and \<open>Incorrect\<close>, \<open>Your answer: No answer\<close> and the label of the
  correct option; the lines of the other positions are as the selection has them.
\<close>

theorem evaluate_answers_short_selections:
  assumes "\<forall>q \<in> set quiz. valid_index q"
  shows "evaluate_answers sel quiz =
           (let c = length (filter (\<lambda>i. sel ! i = Some (answer_index (quiz ! i)))
                              [0..<min (length sel) (length quiz)])
            in if quiz = [] then Inr (''No quiz generated yet.'', [])
               else Inr (''Score: '' @ str_int (int c) @ '' / '' @ str_int (int (length quiz)),
                         (if c = length quiz then great_job
                          else if at_least_06 c (length quiz) then good_work
                          else keep_practicing)
                         @ [newline, newline]
                         @ join [newline]
                             (map (\<lambda>i. if i < length sel then
                                          ''Q'' @ str_int (int i + 1) @ '': '' @
                                          (if sel ! i = Some (answer_index (quiz ! i))
                                           then check_mark @ '' Correct''
                                           else cross_mark @ '' Incorrect'') @
                                          '' | Your answer: '' @
                                          (case sel ! i of
                                             None \<Rightarrow> ''No answer''
                                           | Some u \<Rightarrow>
                                               if 0 \<le> u \<and> u < int (length (options (quiz ! i)))
                                               then options (quiz ! i) ! nat u else ''No answer'') @
                                          '' | Correct: '' @ options (quiz ! i) ! nat (answer_index (quiz ! i))
                                        else
                                          ''Q'' @ str_int (int i + 1) @ '': '' @ cross_mark @
                                          '' Incorrect | Your answer: No answer | Correct: '' @
                                          options (quiz ! i) ! nat (answer_index (quiz ! i)))
                                  [0..<length quiz])))"
proof -
  have loop: "score_loop sel quiz 0 0 [] = Inr (correct_count sel 0 quiz, detail_lines sel 0 quiz)"
    using score_loop_valid[OF assms, of sel 0 0 "[]"] by simp
  have cnt: "correct_count sel 0 quiz =
      length (filter (\<lambda>i. sel ! i = Some (answer_index (quiz ! i))) [0..<min (length sel) (length quiz)])"
  proof -
    let ?P = "\<lambda>i. i < length sel \<and> sel ! i = Some (answer_index (quiz ! i))"
    let ?m = "min (length sel) (length quiz)"
    have "correct_count sel 0 quiz = length (filter ?P [0..<length quiz])"
      by (rule correct_count_positions)
    also have "[0..<length quiz] = [0..<?m] @ [?m..<length quiz]"
      by (metis le_add_diff_inverse min.cobounded2 upt_add_eq_append zero_le)
    also have "filter ?P ([0..<?m] @ [?m..<length quiz]) = filter ?P [0..<?m]"
      by (auto simp: filter_empty_conv)
    also have "filter ?P [0..<?m] = filter (\<lambda>i. sel ! i = Some (answer_index (quiz ! i))) [0..<?m]"
      by (rule filter_cong) auto
    finally show ?thesis .
  qed
  have lines: "detail_lines sel 0 quiz =
      map (\<lambda>i. if i < length sel then
                  ''Q'' @ str_int (int i + 1) @ '': '' @
                  (if sel ! i = Some (answer_index (quiz ! i))
                   then check_mark @ '' Correct''
                   else cross_mark @ '' Incorrect'') @
                  '' | Your answer: '' @
                  (case sel ! i of
                     None \<Rightarrow> ''No answer''
                   | Some u \<Rightarrow>
                       if 0 \<le> u \<and> u < int (length (options (quiz ! i)))
                       then options (quiz ! i) ! nat u else ''No answer'') @
                  '' | Correct: '' @ options (quiz ! i) ! nat (answer_index (quiz ! i))
                else
                  ''Q'' @ str_int (int i + 1) @ '': '' @ cross_mark @
                  '' Incorrect | Your answer: No answer | Correct: '' @
                  options (quiz ! i) ! nat (answer_index (quiz ! i)))
          [0..<length quiz]"
    unfolding detail_lines_positions by (rule map_cong) auto
  show ?thesis
    unfolding evaluate_answers_def loop cnt lines
    by (simp add: Let_def)
qed

text \<open>
  Claim C10 at two copies of the question above with the one selection 2, and at one
  copy with no selection at all: the returned texts.
\<close>

theorem evaluate_answers_short_selections_witness:
  "valid_index \<lparr>question = ''Pick C'', options = [''A'', ''B'', ''C''], answer_index = 2\<rparr>
   \<and> evaluate_answers [Some 2]
        [\<lparr>question = ''Pick C'', options = [''A'', ''B'', ''C''], answer_index = 2\<rparr>,
         \<lparr>question = ''Pick C'', options = [''A'', ''B'', ''C''], answer_index = 2\<rparr>]
       = Inr (''Score: 1 / 2'',
              ''Keep practicing. Revisit the explanation and roadmap.'' @ [CHR 0x0A, CHR 0x0A] @
              ''Q1: '' @ [CHR 0xE2, CHR 0x9C, CHR 0x85] @ '' Correct | Your answer: C | Correct: C'' @
              [CHR 0x0A] @
              ''Q2: '' @ [CHR 0xE2, CHR 0x9D, CHR 0x8C] @
              '' Incorrect | Your answer: No answer | Correct: C'')
   \<and> evaluate_answers []
        [\<lparr>question = ''Pick C'', options = [''A'', ''B'', ''C''], answer_index = 2\<rparr>]
       = Inr (''Score: 0 / 1'',
              ''Keep practicing. Revisit the explanation and roadmap.'' @ [CHR 0x0A, CHR 0x0A] @
              ''Q1: '' @ [CHR 0xE2, CHR 0x9D, CHR 0x8C] @
              '' Incorrect | Your answer: No answer | Correct: C'')"
proof -
  let ?q = "\<lparr>question = ''Pick C'', options = [''A'', ''B'', ''C''], answer_index = 2\<rparr>"
  have v: "valid_index ?q" by (simp add: valid_index_def)
  then have two: "\<forall>q \<in> set [?q, ?q]. valid_index q" and one: "\<forall>q \<in> set [?q]. valid_index q"
    by simp_all
  from evaluate_answers_short_selections[OF two, of "[Some 2]"] evaluate_answers_short_selections[OF one, of "[]"] v
  show ?thesis
    by (simp add: Let_def upt_rec str_int_def digits.simps check_mark_def cross_mark_def
        keep_practicing_def newline_def at_least_06_def round53_def bit_length.simps)
qed

section \<open>The completion client: every path returns a text\<close>



end
